theory Spec2Isabelle
  imports Main
begin

section \<open>Data model\<close>

text \<open>
  Clock readings (\<^verbatim>\<open>datetime.now()\<close>, \<^verbatim>\<open>time.time()\<close>, SQLite's
  \<^verbatim>\<open>CURRENT_TIMESTAMP\<close>) are inputs of the model, counted in ticks.
\<close>

type_synonym time = int

datatype error = Empty | IndexError | DetectorError | DbError

text \<open>Rows of the tables \<^verbatim>\<open>detection_sessions\<close> and \<^verbatim>\<open>detection_logs\<close> (db.py, init_db).\<close>

record session_row =
  row_id :: int
  start_time :: time
  end_time :: "time option"
  total_fire_detections :: int
  total_smoke_detections :: int
  status :: string

record log_row =
  log_id :: int
  session_id :: int
  log_timestamp :: time
  fire_count :: int
  smoke_count :: int
  alert_triggered :: bool

text \<open>
  The SQLite file: the two tables in insertion order and, for each, the counter that
  \<^verbatim>\<open>AUTOINCREMENT\<close> keeps in \<^verbatim>\<open>sqlite_sequence\<close>.
\<close>

record database =
  detection_sessions :: "session_row list"
  detection_logs :: "log_row list"
  session_seq :: int
  log_seq :: int

text \<open>init_db on a fresh file: both tables exist and are empty.\<close>

definition init_db :: database where
  "init_db = \<lparr>detection_sessions = [], detection_logs = [], session_seq = 0, log_seq = 0\<rparr>"

section \<open>db.py\<close>

text \<open>
  The row id an \<^verbatim>\<open>INTEGER PRIMARY KEY AUTOINCREMENT\<close> column gets: one more than the
  largest id the table holds or has ever held.
\<close>

definition next_rowid :: "int \<Rightarrow> int list \<Rightarrow> int" where
  "next_rowid seq ids = foldr max ids seq + 1"

text \<open>start_session: insert an active row stamped with \<^verbatim>\<open>datetime.now()\<close>, return \<^verbatim>\<open>lastrowid\<close>.\<close>

definition start_session :: "time \<Rightarrow> database \<Rightarrow> int \<times> database" where
  "start_session now db =
     (let sid = next_rowid (session_seq db) (map row_id (detection_sessions db))
      in (sid,
          db\<lparr>detection_sessions := detection_sessions db @
                [\<lparr>row_id = sid, start_time = now, end_time = None,
                  total_fire_detections = 0, total_smoke_detections = 0,
                  status = ''active''\<rparr>],
             session_seq := sid\<rparr>))"

text \<open>
  SQL \<^verbatim>\<open>SUM\<close> over an INTEGER column adds in signed 64-bit arithmetic, row after row:
  a running sum that leaves the range makes the statement fail with "integer overflow"
  (sqlite3.OperationalError). Over no rows the sum is NULL. Python's \<^verbatim>\<open>x or 0\<close> maps
  NULL and 0 to 0.
\<close>

definition int64_ok :: "int \<Rightarrow> bool" where
  "int64_ok v = (- (2 ^ 63) \<le> v \<and> v < 2 ^ 63)"

fun sql_sum_from :: "int \<Rightarrow> int list \<Rightarrow> error + int" where
  "sql_sum_from acc [] = Inr acc"
| "sql_sum_from acc (x # xs) =
     (if int64_ok (acc + x) then sql_sum_from (acc + x) xs else Inl DbError)"

definition sql_sum :: "int list \<Rightarrow> error + int option" where
  "sql_sum xs =
     (if xs = [] then Inr None
      else case sql_sum_from 0 xs of Inl e \<Rightarrow> Inl e | Inr v \<Rightarrow> Inr (Some v))"

definition or_zero :: "int option \<Rightarrow> int" where
  "or_zero r = (case r of None \<Rightarrow> 0 | Some v \<Rightarrow> if v = 0 then 0 else v)"

text \<open>
  end_session: aggregate the session's log rows, then update the session row. When the
  \<^verbatim>\<open>SELECT\<close> raises, the \<^verbatim>\<open>UPDATE\<close> is not reached and the database is as before.
\<close>

definition end_session :: "time \<Rightarrow> int \<Rightarrow> database \<Rightarrow> error + database" where
  "end_session now sid db =
     (let rows = filter (\<lambda>l. session_id l = sid) (detection_logs db) in
      case sql_sum (map fire_count rows) of
        Inl e \<Rightarrow> Inl e
      | Inr fire_sum \<Rightarrow>
          (case sql_sum (map smoke_count rows) of
             Inl e \<Rightarrow> Inl e
           | Inr smoke_sum \<Rightarrow>
               (let total_fire = or_zero fire_sum;
                    total_smoke = or_zero smoke_sum
                in Inr (db\<lparr>detection_sessions :=
                          map (\<lambda>s. if row_id s = sid
                                    then s\<lparr>end_time := Some now,
                                           total_fire_detections := total_fire,
                                           total_smoke_detections := total_smoke,
                                           status := ''completed''\<rparr>
                                    else s)
                              (detection_sessions db)\<rparr>))))"

text \<open>add_detection_log: append one log row; its timestamp is the column default.\<close>

definition add_detection_log ::
    "time \<Rightarrow> int \<Rightarrow> int \<Rightarrow> int \<Rightarrow> bool \<Rightarrow> database \<Rightarrow> database" where
  "add_detection_log now sid fire_cnt smoke_cnt alert db =
     (let lid = next_rowid (log_seq db) (map log_id (detection_logs db))
      in db\<lparr>detection_logs := detection_logs db @
               [\<lparr>log_id = lid, session_id = sid, log_timestamp = now,
                 fire_count = fire_cnt, smoke_count = smoke_cnt,
                 alert_triggered = alert\<rparr>],
            log_seq := lid\<rparr>)"

text \<open>get_session_logs: the rows of one session, \<^verbatim>\<open>ORDER BY timestamp ASC\<close>.\<close>

definition get_session_logs :: "int \<Rightarrow> database \<Rightarrow> log_row list" where
  "get_session_logs sid db =
     sort_key log_timestamp (filter (\<lambda>l. session_id l = sid) (detection_logs db))"

section \<open>Python queues\<close>

text \<open>
  \<^verbatim>\<open>queue.Queue(maxsize)\<close> as the list of its items, oldest first. A blocking
  \<^verbatim>\<open>put\<close> on a full queue waits for a consumer; the model returns \<open>None\<close> there.
\<close>

definition full :: "nat \<Rightarrow> 'a list \<Rightarrow> bool" where
  "full maxsize q = (0 < maxsize \<and> maxsize \<le> length q)"

definition get_nowait :: "'a list \<Rightarrow> error + ('a \<times> 'a list)" where
  "get_nowait q = (case q of [] \<Rightarrow> Inl Empty | x # rest \<Rightarrow> Inr (x, rest))"

definition put :: "nat \<Rightarrow> 'a \<Rightarrow> 'a list \<Rightarrow> 'a list option" where
  "put maxsize x q = (if 0 < maxsize \<and> maxsize \<le> length q then None else Some (q @ [x]))"

text \<open>
  \<^verbatim>\<open>get(timeout=1)\<close>: the oldest item, or \<^verbatim>\<open>queue.Empty\<close> when the queue is still
  empty as the wait ends.
\<close>

definition get_timeout :: "'a list \<Rightarrow> error + ('a \<times> 'a list)" where
  "get_timeout q = (case q of [] \<Rightarrow> Inl Empty | x # rest \<Rightarrow> Inr (x, rest))"

text \<open>capture_frames, lines 79-86: make room if the frame queue is full, then put.\<close>

definition enqueue_frame :: "'a \<Rightarrow> 'a list \<Rightarrow> 'a list option" where
  "enqueue_frame frame q =
     (let q1 = (if full 2 q
                then (case get_nowait q of Inl e \<Rightarrow> q | Inr (old, rest) \<Rightarrow> rest)
                else q)
      in put 2 frame q1)"

text \<open>The producer inserting a run of frames, one after the other.\<close>

fun enqueue_frames :: "'a list \<Rightarrow> 'a list \<Rightarrow> 'a list option" where
  "enqueue_frames [] q = Some q"
| "enqueue_frames (f # fs) q =
     (case enqueue_frame f q of None \<Rightarrow> None | Some q' \<Rightarrow> enqueue_frames fs q')"

section \<open>app.py: detections and frames\<close>

text \<open>
  A box the detector returns: its class index, its corners as \<^verbatim>\<open>map(int, box.xyxy[0])\<close>
  gives them, and its confidence as the format \<^verbatim>\<open>.2f\<close> renders it.
\<close>

record box =
  box_cls :: int
  box_x1 :: int
  box_y1 :: int
  box_x2 :: int
  box_y2 :: int
  box_conf :: string

type_synonym color = "nat \<times> nat \<times> nat"

text \<open>
  What the three drawing calls of one detection (rectangle, label background, label text)
  leave on the frame.
\<close>

record overlay =
  ov_x1 :: int
  ov_y1 :: int
  ov_x2 :: int
  ov_y2 :: int
  ov_label :: string
  ov_color :: color

text \<open>A frame: its \<^verbatim>\<open>size\<close>, its pixels (opaque) and what has been drawn on it.\<close>

record frame =
  frame_size :: nat
  frame_data :: nat
  overlays :: "overlay list"

definition classes :: "string list" where
  "classes = [''fire'', ''light'', ''no-fire'', ''smoke'']"

definition colors :: "color list" where
  "colors = [(0, 0, 255), (0, 255, 255), (0, 255, 0), (128, 128, 128)]"

text \<open>Python list indexing: a negative index counts from the end, out of range raises.\<close>

definition py_index :: "'a list \<Rightarrow> int \<Rightarrow> error + 'a" where
  "py_index xs i =
     (if 0 \<le> i \<and> i < int (length xs) then Inr (xs ! nat i)
      else if i < 0 \<and> - int (length xs) \<le> i then Inr (xs ! nat (int (length xs) + i))
      else Inl IndexError)"

definition draw_box :: "box \<Rightarrow> string \<Rightarrow> color \<Rightarrow> frame \<Rightarrow> frame" where
  "draw_box b label col fr =
     fr\<lparr>overlays := overlays fr @
          [\<lparr>ov_x1 = box_x1 b, ov_y1 = box_y1 b, ov_x2 = box_x2 b, ov_y2 = box_y2 b,
            ov_label = label, ov_color = col\<rparr>]\<rparr>"

text \<open>
  generate, lines 115-141: the loop over \<^verbatim>\<open>results.boxes\<close>, with the two counters and
  the frame it draws on.
\<close>

fun annotate :: "box list \<Rightarrow> int \<Rightarrow> int \<Rightarrow> frame \<Rightarrow> error + (int \<times> int \<times> frame)" where
  "annotate [] fire_cnt smoke_cnt fr = Inr (fire_cnt, smoke_cnt, fr)"
| "annotate (b # bs) fire_cnt smoke_cnt fr =
     (let cls = box_cls b in
      if cls = 2 \<or> cls = 1 then annotate bs fire_cnt smoke_cnt fr
      else
        let fire_cnt' = (if cls = 0 then fire_cnt + 1 else fire_cnt);
            smoke_cnt' = (if cls = 0 then smoke_cnt else if cls = 3 then smoke_cnt + 1 else smoke_cnt)
        in case py_index classes cls of
             Inl e \<Rightarrow> Inl e
           | Inr name \<Rightarrow>
               (case py_index colors cls of
                  Inl e \<Rightarrow> Inl e
                | Inr col \<Rightarrow>
                    annotate bs fire_cnt' smoke_cnt'
                      (draw_box b (name @ '' '' @ box_conf b) col fr)))"

section \<open>app.py: shared state\<close>

record snapshot =
  fire :: int
  smoke :: int
  timestamp :: time

text \<open>The module's globals, the two queues and the SQLite file.\<close>

record app_state =
  capturing :: bool
  stop_event :: bool
  current_detections :: snapshot
  current_session_id :: "int option"
  frame_queue :: "frame option list"
  detection_queue :: "snapshot list"
  store :: database

text \<open>Python's truth value of \<^verbatim>\<open>current_session_id\<close>: \<^verbatim>\<open>None\<close> and 0 are false.\<close>

definition truthy :: "int option \<Rightarrow> bool" where
  "truthy v = (case v of None \<Rightarrow> False | Some n \<Rightarrow> n \<noteq> 0)"

text \<open>
  A call into db.py: sqlite3 may raise (the flag is the environment's), and then nothing
  was committed.
\<close>

definition db_call :: "bool \<Rightarrow> (database \<Rightarrow> 'a) \<Rightarrow> database \<Rightarrow> error + 'a" where
  "db_call store_ok f db = (if store_ok then Inr (f db) else Inl DbError)"

text \<open>The same for a function of db.py that has an exception of its own.\<close>

definition db_try :: "bool \<Rightarrow> (database \<Rightarrow> error + 'a) \<Rightarrow> database \<Rightarrow> error + 'a" where
  "db_try store_ok f db = (if store_ok then f db else Inl DbError)"

section \<open>app.py: capture_frames\<close>

datatype capture_ctl = Continue nat | Reconnect | Blocked

text \<open>
  One pass through the body of the inner loop (lines 62-87) on the result of
  \<^verbatim>\<open>cap.read()\<close>: the control outcome (\<open>Continue\<close> with the pause in milliseconds,
  \<open>Reconnect\<close> for the \<^verbatim>\<open>break\<close>), the failure counter and the state.
\<close>

definition capture_step ::
    "bool \<times> frame option \<Rightarrow> int \<Rightarrow> app_state \<Rightarrow> capture_ctl \<times> int \<times> app_state" where
  "capture_step rd consecutive_failures st =
     (case rd of (ret, frame) \<Rightarrow>
        if \<not> ret then
          (let failures = consecutive_failures + 1 in
           if failures > 10 then (Reconnect, failures, st)
           else (Continue 100, failures, st))
        else
          (case enqueue_frame frame (frame_queue st) of
             None \<Rightarrow> (Blocked, 0, st)
           | Some q \<Rightarrow> (Continue 30, 0, st\<lparr>frame_queue := q\<rparr>)))"

datatype capture_exit = Reads_Pending | Disabled | Released | Stuck

text \<open>
  The inner loop (line 61) on the reads the camera delivers: it leaves through its
  condition (\<open>Disabled\<close>), through the \<^verbatim>\<open>break\<close> to release and reopen the
  connection (\<open>Released\<close>), or is still running when the given reads are used up.
\<close>

fun capture_loop ::
    "(bool \<times> frame option) list \<Rightarrow> int \<Rightarrow> app_state \<Rightarrow> capture_exit \<times> int \<times> app_state" where
  "capture_loop [] failures st =
     (if \<not> stop_event st \<and> capturing st then (Reads_Pending, failures, st)
      else (Disabled, failures, st))"
| "capture_loop (rd # rds) failures st =
     (if \<not> stop_event st \<and> capturing st then
        (case capture_step rd failures st of
           (Continue pause, failures', st') \<Rightarrow> capture_loop rds failures' st'
         | (Reconnect, failures', st') \<Rightarrow> (Released, failures', st')
         | (Blocked, failures', st') \<Rightarrow> (Stuck, failures', st'))
      else (Disabled, failures, st))"

section \<open>app.py: generate\<close>

text \<open>
  Lines 144-158: when a count changed, replace the snapshot, log it if a session is
  active, and queue the event unless the event queue is full. An exception of the log
  call leaves with the snapshot already replaced. The \<open>None\<close> branch of \<open>put\<close> is
  not reached: the queue was just seen not to be full.
\<close>

definition publish_change ::
    "bool \<Rightarrow> time \<Rightarrow> time \<Rightarrow> int \<Rightarrow> int \<Rightarrow> app_state \<Rightarrow> error option \<times> app_state" where
  "publish_change store_ok clock now fire_cnt smoke_cnt st =
     (if fire_cnt \<noteq> fire (current_detections st) \<or> smoke_cnt \<noteq> smoke (current_detections st) then
        (let st1 = st\<lparr>current_detections := \<lparr>fire = fire_cnt, smoke = smoke_cnt, timestamp = now\<rparr>\<rparr>;
             logged =
               (if truthy (current_session_id st1) then
                  (let alert_triggered = (fire_cnt > 0 \<or> smoke_cnt > 0) in
                   db_call store_ok
                     (add_detection_log clock (the (current_session_id st1)) fire_cnt smoke_cnt
                        alert_triggered)
                     (store st1))
                else Inr (store st1))
         in case logged of
              Inl e \<Rightarrow> (Some e, st1)
            | Inr db \<Rightarrow>
                (let st2 = st1\<lparr>store := db\<rparr> in
                 if \<not> full 10 (detection_queue st2) then
                   (case put 10 (current_detections st2) (detection_queue st2) of
                      Some q \<Rightarrow> (None, st2\<lparr>detection_queue := q\<rparr>)
                    | None \<Rightarrow> (None, st2))
                 else (None, st2)))
      else (None, st))"

datatype outcome = Idle | No_Frame | Skipped | Caught error | Yielded frame

type_synonym detector = "frame \<Rightarrow> error + box list"

text \<open>
  One pass through the body of the loop of generate (lines 99-169). The detector is the
  external model; \<open>Caught\<close> is the handler of line 167, \<open>Yielded\<close> the frame sent to
  the video client (its JPEG encoding, line 161, is taken to succeed).
\<close>

definition generate_step ::
    "detector \<Rightarrow> bool \<Rightarrow> time \<Rightarrow> time \<Rightarrow> app_state \<Rightarrow> outcome \<times> app_state" where
  "generate_step model store_ok clock now st =
     (if \<not> capturing st then (Idle, st)
      else
        case get_timeout (frame_queue st) of
          Inl e \<Rightarrow> (No_Frame, st)
        | Inr (item, rest) \<Rightarrow>
            (let st1 = st\<lparr>frame_queue := rest\<rparr> in
             case item of
               None \<Rightarrow> (Skipped, st1)
             | Some fr \<Rightarrow>
                 if frame_size fr = 0 then (Skipped, st1)
                 else
                   (case model fr of
                      Inl e \<Rightarrow> (Caught e, st1)
                    | Inr boxes \<Rightarrow>
                        (case annotate boxes 0 0 fr of
                           Inl e \<Rightarrow> (Caught e, st1)
                         | Inr (fire_cnt, smoke_cnt, fr') \<Rightarrow>
                             (case publish_change store_ok clock now fire_cnt smoke_cnt st1 of
                                (Some e, st2) \<Rightarrow> (Caught e, st2)
                              | (None, st2) \<Rightarrow> (Yielded fr', st2))))))"

text \<open>
  The \<^verbatim>\<open>while True\<close> of generate, for as many passes as environments are given: every
  pass ends in \<^verbatim>\<open>continue\<close> or in the \<^verbatim>\<open>yield\<close>, and the next one follows.
\<close>

fun generate_loop ::
    "detector \<Rightarrow> (bool \<times> time \<times> time) list \<Rightarrow> app_state \<Rightarrow> outcome list \<times> app_state" where
  "generate_loop model [] st = ([], st)"
| "generate_loop model ((store_ok, clock, now) # envs) st =
     (case generate_step model store_ok clock now st of
        (out, st') \<Rightarrow>
          (case generate_loop model envs st' of (outs, st'') \<Rightarrow> (out # outs, st'')))"

section \<open>app.py: routes\<close>

text \<open>Lines 224-228: take events off the queue until it is empty.\<close>

fun drain :: "'a list \<Rightarrow> 'a list" where
  "drain [] = []"
| "drain (x # rest) = drain rest"

definition zero_snapshot :: "time \<Rightarrow> snapshot" where
  "zero_snapshot now = \<lparr>fire = 0, smoke = 0, timestamp = now\<rparr>"

text \<open>
  /start. The result is the JSON body (status, session id), or the exception that ends
  the request; the state is what the request leaves behind either way.
\<close>

definition start ::
    "bool \<Rightarrow> time \<Rightarrow> time \<Rightarrow> app_state \<Rightarrow> (error + string \<times> int) \<times> app_state" where
  "start store_ok clock now st =
     (let st1 = st\<lparr>capturing := True\<rparr> in
      case db_call store_ok (start_session clock) (store st1) of
        Inl e \<Rightarrow> (Inl e, st1)
      | Inr (sid, db) \<Rightarrow>
          (let st2 = st1\<lparr>store := db, current_session_id := Some sid\<rparr>;
               st3 = st2\<lparr>current_detections := zero_snapshot now\<rparr>;
               st4 = st3\<lparr>detection_queue := drain (detection_queue st3)\<rparr>
           in (Inr (''ok'', sid), st4)))"

text \<open>/stop.\<close>

definition stop ::
    "bool \<Rightarrow> time \<Rightarrow> time \<Rightarrow> app_state \<Rightarrow> (error + string) \<times> app_state" where
  "stop store_ok clock now st =
     (let st1 = st\<lparr>capturing := False\<rparr>;
          closed =
            (if truthy (current_session_id st1) then
               (case db_try store_ok (end_session clock (the (current_session_id st1))) (store st1) of
                  Inl e \<Rightarrow> Inl e
                | Inr db \<Rightarrow> Inr (st1\<lparr>store := db, current_session_id := None\<rparr>))
             else Inr st1)
      in case closed of
           Inl e \<Rightarrow> (Inl e, st1)
         | Inr st2 \<Rightarrow> (Inr ''OK'', st2\<lparr>current_detections := zero_snapshot now\<rparr>))"

text \<open>/detection_status.\<close>

definition detection_status :: "app_state \<Rightarrow> snapshot" where
  "detection_status st = current_detections st"

text \<open>/api/session/<id>: the one report query the claims name; it changes nothing.\<close>

definition get_session_details :: "bool \<Rightarrow> int \<Rightarrow> app_state \<Rightarrow> error + log_row list" where
  "get_session_details store_ok sid st = db_call store_ok (get_session_logs sid) (store st)"

text \<open>The state at import time (lines 15-32), the module being loaded at clock \<open>now\<close>.\<close>

definition initial_state :: "time \<Rightarrow> app_state" where
  "initial_state now =
     \<lparr>capturing = False, stop_event = False, current_detections = zero_snapshot now,
      current_session_id = None, frame_queue = [], detection_queue = [], store = init_db\<rparr>"

text \<open>
  What the application does, one request, frame or camera read at a time. The failure
  counter of the capture thread is its own and never reaches the shared state.
\<close>

datatype event =
    Start_Request bool time time
  | Stop_Request bool time time
  | Video_Frame bool time time
  | Camera_Read "bool \<times> frame option"

fun app_step :: "detector \<Rightarrow> event \<Rightarrow> app_state \<Rightarrow> app_state" where
  "app_step model (Start_Request store_ok clock now) st = snd (start store_ok clock now st)"
| "app_step model (Stop_Request store_ok clock now) st = snd (stop store_ok clock now st)"
| "app_step model (Video_Frame store_ok clock now) st = snd (generate_step model store_ok clock now st)"
| "app_step model (Camera_Read rd) st =
     (if \<not> stop_event st \<and> capturing st then snd (snd (capture_step rd 0 st)) else st)"

fun run :: "detector \<Rightarrow> event list \<Rightarrow> app_state \<Rightarrow> app_state" where
  "run model [] st = st"
| "run model (ev # evs) st = run model evs (app_step model ev st)"

section \<open>The frame buffer\<close>

lemma enqueue_frame_eq:
  "length q \<le> 2 \<Longrightarrow> enqueue_frame f q = Some (drop (length (q @ [f]) - 2) (q @ [f]))"
  by (cases q; cases "tl q"; cases "tl (tl q)")
     (auto simp: enqueue_frame_def full_def get_nowait_def put_def)

lemma enqueue_frames_eq:
  "length q \<le> 2 \<Longrightarrow> enqueue_frames fs q = Some (drop (length (q @ fs) - 2) (q @ fs))"
proof (induction fs arbitrary: q)
  case Nil
  then show ?case by simp
next
  case (Cons f fs)
  let ?q' = "drop (length (q @ [f]) - 2) (q @ [f])"
  have step: "enqueue_frame f q = Some ?q'"
    using Cons.prems by (rule enqueue_frame_eq)
  have len: "length ?q' \<le> 2" by simp
  have "enqueue_frames (f # fs) q = enqueue_frames fs ?q'"
    using step by simp
  also have "\<dots> = Some (drop (length (?q' @ fs) - 2) (?q' @ fs))"
    using len by (rule Cons.IH)
  also have "drop (length (?q' @ fs) - 2) (?q' @ fs) = drop (length (q @ f # fs) - 2) (q @ f # fs)"
    by (cases fs) auto
  finally show ?case .
qed

text \<open>
  C2. The frame buffer is a drop-oldest queue of capacity 2: from a buffer holding at
  most two frames, the producer's insert never blocks (it always returns a buffer), the
  buffer never holds more than two frames, and after a run of two or more inserts
  exactly the two most recent frames are in it, oldest first; a full buffer loses its
  oldest entry to the insert.
\<close>

theorem frame_buffer_drop_oldest:
  assumes "length q \<le> 2"
  shows "\<exists>q'. enqueue_frames fs q = Some q' \<and> length q' \<le> 2 \<and>
           (2 \<le> length fs \<longrightarrow> q' = [fs ! (length fs - 2), fs ! (length fs - 1)]) \<and>
           (length q = 2 \<longrightarrow> enqueue_frame f q = Some [q ! 1, f])"
proof -
  have run: "enqueue_frames fs q = Some (drop (length (q @ fs) - 2) (q @ fs))"
    using assms by (rule enqueue_frames_eq)
  have recent: "drop (length (q @ fs) - 2) (q @ fs) = [fs ! (length fs - 2), fs ! (length fs - 1)]"
    if "2 \<le> length fs"
  proof -
    have "drop (length (q @ fs) - 2) (q @ fs) = drop (length fs - 2) fs"
      using that by simp
    also have "\<dots> = [fs ! (length fs - 2), fs ! (length fs - 1)]"
      using that
      by (intro nth_equalityI) (auto simp: nth_Cons' numeral_2_eq_2 less_Suc_eq)
    finally show ?thesis .
  qed
  have evict: "enqueue_frame f q = Some [q ! 1, f]" if "length q = 2"
  proof -
    from that obtain a b where "q = [a, b]"
      by (cases q; cases "tl q") auto
    then show ?thesis
      by (simp add: enqueue_frame_def full_def get_nowait_def put_def)
  qed
  show ?thesis
    using run recent evict by simp
qed

theorem frame_buffer_drop_oldest_witness:
  "enqueue_frames [3, 4, 5 :: nat] [1, 2] = Some [4, 5] \<and>
   enqueue_frame (3 :: nat) [1, 2] = Some [2, 3]"
  using frame_buffer_drop_oldest [of "[1, 2 :: nat]" "[3, 4, 5]" 3]
  by (simp add: enqueue_frame_def full_def get_nowait_def put_def)

section \<open>Sessions\<close>

lemma sql_sum_from_Inr: "sql_sum_from acc xs = Inr v \<Longrightarrow> v = acc + sum_list xs"
proof (induction xs arbitrary: acc)
  case Nil
  then show ?case by simp
next
  case (Cons x xs)
  from Cons.prems have "sql_sum_from (acc + x) xs = Inr v"
    by (simp split: if_splits)
  from Cons.IH [OF this] show ?case by simp
qed

lemma sql_sum_from_Inl: "sql_sum_from acc xs = Inl e \<Longrightarrow> e = DbError"
  by (induction xs arbitrary: acc) (auto split: if_splits)

lemma sql_sum_from_in_range:
  "\<forall>k. k \<le> length xs \<longrightarrow> int64_ok (acc + sum_list (take k xs)) \<Longrightarrow>
   sql_sum_from acc xs = Inr (acc + sum_list xs)"
proof (induction xs arbitrary: acc)
  case Nil
  then show ?case by simp
next
  case (Cons x xs)
  have one: "int64_ok (acc + x)"
    using Cons.prems [rule_format, of 1] by simp
  have rest: "\<forall>k. k \<le> length xs \<longrightarrow> int64_ok (acc + x + sum_list (take k xs))"
  proof (intro allI impI)
    fix k assume "k \<le> length xs"
    then show "int64_ok (acc + x + sum_list (take k xs))"
      using Cons.prems [rule_format, of "Suc k"] by (simp add: add.assoc)
  qed
  show ?case
    using one Cons.IH [OF rest] by (simp add: add.assoc)
qed

lemma or_zero_sql_sum: "sql_sum xs = Inr r \<Longrightarrow> or_zero r = sum_list xs"
  by (auto simp: or_zero_def sql_sum_def split: if_splits sum.splits dest: sql_sum_from_Inr)

lemma sql_sum_in_range:
  "\<forall>k. k \<le> length xs \<longrightarrow> int64_ok (sum_list (take k xs)) \<Longrightarrow> \<exists>r. sql_sum xs = Inr r"
  using sql_sum_from_in_range [of xs 0] by (simp add: sql_sum_def)

lemma end_session_Inl: "end_session t1 sid db = Inl e \<Longrightarrow> e = DbError"
  by (auto simp: end_session_def sql_sum_def Let_def split: sum.splits if_splits
      dest: sql_sum_from_Inl)

lemma end_session_logs: "end_session t1 sid db = Inr db' \<Longrightarrow> detection_logs db' = detection_logs db"
  by (auto simp: end_session_def Let_def split: sum.splits)

lemma foldr_max_ge: "i \<in> set ids \<Longrightarrow> i \<le> foldr max ids (seq :: int)"
  by (induction ids) auto

lemma next_rowid_fresh: "i \<in> set ids \<Longrightarrow> i < next_rowid seq ids"
  using foldr_max_ge [of i ids seq] by (simp add: next_rowid_def)

lemma start_session_sessions:
  "detection_sessions (snd (start_session t0 db)) = detection_sessions db @
     [\<lparr>row_id = fst (start_session t0 db), start_time = t0, end_time = None,
       total_fire_detections = 0, total_smoke_detections = 0, status = ''active''\<rparr>]"
  by (simp add: start_session_def Let_def)

lemma start_session_fresh:
  "s \<in> set (detection_sessions db) \<Longrightarrow> row_id s < fst (start_session t0 db)"
  using next_rowid_fresh [of "row_id s" "map row_id (detection_sessions db)" "session_seq db"]
  by (simp add: start_session_def Let_def)

lemma start_session_row:
  assumes "start_session t0 db0 = (sid, db1)"
  shows "filter (\<lambda>s. row_id s = sid) (detection_sessions db1) =
           [\<lparr>row_id = sid, start_time = t0, end_time = None,
             total_fire_detections = 0, total_smoke_detections = 0, status = ''active''\<rparr>]"
proof -
  have "row_id s \<noteq> sid" if "s \<in> set (detection_sessions db0)" for s
    using start_session_fresh [OF that, of t0] assms by simp
  then have "filter (\<lambda>s. row_id s = sid) (detection_sessions db0) = []"
    by (simp add: filter_empty_conv)
  then show ?thesis
    using start_session_sessions [of t0 db0] assms by simp
qed

lemma map_close_row:
  "filter (\<lambda>s. row_id s = sid) (map (\<lambda>s. if row_id s = sid then upd s else s) rows) =
     map upd (filter (\<lambda>s. row_id s = sid) rows)"
  if "\<And>s. row_id (upd s) = row_id s"
  using that by (induction rows) simp_all

lemma end_session_row:
  assumes "end_session t1 sid db = Inr db'"
  shows "filter (\<lambda>s. row_id s = sid) (detection_sessions db') =
     map (\<lambda>s. s\<lparr>end_time := Some t1,
                 total_fire_detections :=
                   sum_list (map fire_count (filter (\<lambda>l. session_id l = sid) (detection_logs db))),
                 total_smoke_detections :=
                   sum_list (map smoke_count (filter (\<lambda>l. session_id l = sid) (detection_logs db))),
                 status := ''completed''\<rparr>)
       (filter (\<lambda>s. row_id s = sid) (detection_sessions db))"
proof -
  let ?rows = "filter (\<lambda>l. session_id l = sid) (detection_logs db)"
  obtain fire_sum smoke_sum where sums: "sql_sum (map fire_count ?rows) = Inr fire_sum"
      "sql_sum (map smoke_count ?rows) = Inr smoke_sum"
    and db': "db' = db\<lparr>detection_sessions :=
        map (\<lambda>s. if row_id s = sid
                  then s\<lparr>end_time := Some t1, total_fire_detections := or_zero fire_sum,
                         total_smoke_detections := or_zero smoke_sum, status := ''completed''\<rparr>
                  else s)
            (detection_sessions db)\<rparr>"
    using assms by (auto simp: end_session_def Let_def split: sum.splits)
  show ?thesis
    unfolding db' using or_zero_sql_sum [OF sums(1)] or_zero_sql_sum [OF sums(2)]
    by (simp add: map_close_row)
qed

text \<open>
  C4, as amended. A session is started at clock reading \<open>t0\<close> and closed at clock
  reading \<open>t1\<close>; in between the database may change in any way that leaves the
  session's own row alone (log rows are appended, other sessions start and close), and
  the running sums of the session's fire and smoke counts stay within signed 64-bit
  integers. Then closing succeeds and leaves exactly one row for the session: it keeps
  its start time \<open>t0\<close>, its end time is \<open>t1\<close>, which is not before the start time exactly
  when the clock reading at close is not before the reading at start, its status is
  completed, and its two totals are the sums of the fire and smoke counts over the
  session's log rows, both 0 when it has none.
\<close>

theorem session_close_totals:
  assumes "start_session t0 db0 = (sid, db1)"
    and "filter (\<lambda>s. row_id s = sid) (detection_sessions db2) =
         filter (\<lambda>s. row_id s = sid) (detection_sessions db1)"
    and "\<forall>k. k \<le> length (filter (\<lambda>l. session_id l = sid) (detection_logs db2)) \<longrightarrow>
           int64_ok (sum_list (take k (map fire_count
             (filter (\<lambda>l. session_id l = sid) (detection_logs db2))))) \<and>
           int64_ok (sum_list (take k (map smoke_count
             (filter (\<lambda>l. session_id l = sid) (detection_logs db2)))))"
  shows "\<exists>db3 row. end_session t1 sid db2 = Inr db3 \<and>
           filter (\<lambda>s. row_id s = sid) (detection_sessions db3) = [row] \<and>
           start_time row = t0 \<and> end_time row = Some t1 \<and>
           (start_time row \<le> t1) = (t0 \<le> t1) \<and>
           status row = ''completed'' \<and>
           total_fire_detections row =
             sum_list (map fire_count (filter (\<lambda>l. session_id l = sid) (detection_logs db2))) \<and>
           total_smoke_detections row =
             sum_list (map smoke_count (filter (\<lambda>l. session_id l = sid) (detection_logs db2))) \<and>
           (filter (\<lambda>l. session_id l = sid) (detection_logs db2) = [] \<longrightarrow>
              total_fire_detections row = 0 \<and> total_smoke_detections row = 0)"
proof -
  let ?rows = "filter (\<lambda>l. session_id l = sid) (detection_logs db2)"
  obtain fire_sum where f: "sql_sum (map fire_count ?rows) = Inr fire_sum"
    using sql_sum_in_range [of "map fire_count ?rows"] assms(3) by auto
  obtain smoke_sum where s: "sql_sum (map smoke_count ?rows) = Inr smoke_sum"
    using sql_sum_in_range [of "map smoke_count ?rows"] assms(3) by auto
  obtain db3 where db3: "end_session t1 sid db2 = Inr db3"
    using f s by (simp add: end_session_def Let_def)
  show ?thesis
    using assms(2) start_session_row [OF assms(1)] end_session_row [OF db3] db3
    by simp
qed

theorem session_close_totals_witness:
  "(case end_session 9 1
           (add_detection_log 8 1 0 3 True
              (add_detection_log 7 1 2 1 True (snd (start_session 5 init_db)))) of
      Inl e \<Rightarrow> []
    | Inr db \<Rightarrow> filter (\<lambda>s. row_id s = 1) (detection_sessions db)) =
   [\<lparr>row_id = 1, start_time = 5, end_time = Some 9, total_fire_detections = 2,
     total_smoke_detections = 4, status = ''completed''\<rparr>]"
  using session_close_totals [of 5 init_db 1 "snd (start_session 5 init_db)"
      "add_detection_log 8 1 0 3 True
         (add_detection_log 7 1 2 1 True (snd (start_session 5 init_db)))" 9]
  by (simp add: start_session_def add_detection_log_def end_session_def init_db_def
      next_rowid_def sql_sum_def or_zero_def int64_ok_def Let_def)

text \<open>
  C4 as stated fails when the clock reading at close is before the reading at start
  (\<^verbatim>\<open>datetime.now()\<close> is the local wall clock, read once in start_session and once in
  end_session): /start at reading 5 and /stop at reading 3 leave a completed row whose
  end time 3 is before its start time 5.
\<close>

theorem end_time_before_start_time:
  "detection_sessions (store (snd (stop True 3 3 (snd (start True 5 5 (initial_state 0)))))) =
   [\<lparr>row_id = 1, start_time = 5, end_time = Some 3, total_fire_detections = 0,
     total_smoke_detections = 0, status = ''completed''\<rparr>]"
  by (simp add: start_def stop_def db_call_def db_try_def start_session_def end_session_def
      truthy_def next_rowid_def sql_sum_def or_zero_def zero_snapshot_def initial_state_def
      init_db_def Let_def)

section \<open>The annotation loop\<close>


lemma annotate_filter:
  "annotate (filter (\<lambda>b. box_cls b \<noteq> 2 \<and> box_cls b \<noteq> 1) boxes) f s fr = annotate boxes f s fr"
  by (induction boxes f s fr rule: annotate.induct)
     (auto simp: Let_def split: sum.splits)

lemma py_index_classes:
  "py_index classes 0 = Inr ''fire''" "py_index classes 3 = Inr ''smoke''"
  "py_index colors 0 = Inr (0, 0, 255)" "py_index colors 3 = Inr (128, 128, 128)"
  by (simp_all add: py_index_def classes_def colors_def)

lemma nth_classes:
  "classes ! 0 = ''fire''" "classes ! 3 = ''smoke''"
  "colors ! 0 = (0, 0, 255)" "colors ! 3 = (128, 128, 128)"
  by (simp_all add: classes_def colors_def)

lemma annotate_in_range:
  assumes "\<forall>b\<in>set boxes. box_cls b \<in> {0, 1, 2, 3}"
  shows "annotate boxes f s fr =
     Inr (f + int (length (filter (\<lambda>b. box_cls b = 0) boxes)),
          s + int (length (filter (\<lambda>b. box_cls b = 3) boxes)),
          foldl (\<lambda>fr b. draw_box b (classes ! nat (box_cls b) @ '' '' @ box_conf b) (colors ! nat (box_cls b)) fr) fr
            (filter (\<lambda>b. box_cls b \<noteq> 2 \<and> box_cls b \<noteq> 1) boxes))"
  using assms
proof (induction boxes arbitrary: f s fr)
  case Nil
  then show ?case by simp
next
  case (Cons b bs)
  have rest: "\<forall>b\<in>set bs. box_cls b \<in> {0, 1, 2, 3}"
    using Cons.prems by simp
  note IH = Cons.IH [OF rest]
  consider "box_cls b = 0" | "box_cls b = 1" | "box_cls b = 2" | "box_cls b = 3"
    using Cons.prems by auto
  then show ?case
  proof cases
    case 1
    then show ?thesis by (simp add: IH py_index_classes nth_classes)
  next
    case 2
    then show ?thesis by (simp add: IH)
  next
    case 3
    then show ?thesis by (simp add: IH)
  next
    case 4
    then show ?thesis by (simp add: IH py_index_classes nth_classes)
  qed
qed

lemma annotate_ignored:
  "\<forall>b\<in>set boxes. box_cls b = 1 \<or> box_cls b = 2 \<Longrightarrow> annotate boxes f s fr = Inr (f, s, fr)"
  by (induction boxes) auto

lemma put_not_full: "\<not> full n q \<Longrightarrow> put n x q = Some (q @ [x])"
  by (auto simp: full_def put_def)

lemma publish_change_eq:
  "publish_change store_ok clock now f s st =
     (if f \<noteq> fire (current_detections st) \<or> s \<noteq> smoke (current_detections st) then
        if truthy (current_session_id st) \<and> \<not> store_ok then
          (Some DbError, st\<lparr>current_detections := \<lparr>fire = f, smoke = s, timestamp = now\<rparr>\<rparr>)
        else
          (None,
           st\<lparr>current_detections := \<lparr>fire = f, smoke = s, timestamp = now\<rparr>,
              store :=
                (if truthy (current_session_id st)
                 then add_detection_log clock (the (current_session_id st)) f s (f > 0 \<or> s > 0) (store st)
                 else store st),
              detection_queue :=
                (if length (detection_queue st) < 10
                 then detection_queue st @ [\<lparr>fire = f, smoke = s, timestamp = now\<rparr>]
                 else detection_queue st)\<rparr>)
      else (None, st))"
  by (auto simp: publish_change_def db_call_def Let_def put_def full_def)

lemma generate_step_frame:
  assumes "capturing st" and "frame_queue st = Some fr # rest" and "frame_size fr \<noteq> 0"
    and "model fr = Inr boxes" and "annotate boxes 0 0 fr = Inr (f, s, fr')"
  shows "generate_step model store_ok clock now st =
     (case publish_change store_ok clock now f s (st\<lparr>frame_queue := rest\<rparr>) of
        (Some e, st2) \<Rightarrow> (Caught e, st2)
      | (None, st2) \<Rightarrow> (Yielded fr', st2))"
  using assms by (simp add: generate_step_def get_timeout_def Let_def)

lemma add_detection_log_logs:
  "detection_logs (add_detection_log clock sid f s a db) = detection_logs db @
     [\<lparr>log_id = next_rowid (log_seq db) (map log_id (detection_logs db)), session_id = sid,
       log_timestamp = clock, fire_count = f, smoke_count = s, alert_triggered = a\<rparr>]"
  by (simp add: add_detection_log_def Let_def)

lemma foldl_draw_box:
  "foldl (\<lambda>fr b. draw_box b (lab b) (col b) fr) fr bs =
     fr\<lparr>overlays := overlays fr @
       map (\<lambda>b. \<lparr>ov_x1 = box_x1 b, ov_y1 = box_y1 b, ov_x2 = box_x2 b, ov_y2 = box_y2 b,
                   ov_label = lab b, ov_color = col b\<rparr>) bs\<rparr>"
  by (induction bs arbitrary: fr) (simp_all add: draw_box_def)

lemma generate_step_store:
  "store (snd (generate_step model store_ok clock now st)) = store st \<or>
   (\<exists>sid f s. store (snd (generate_step model store_ok clock now st)) =
      add_detection_log clock sid f s (f > 0 \<or> s > 0) (store st))"
  by (auto simp: generate_step_def publish_change_eq Let_def
      split: sum.splits option.splits prod.splits if_splits)

lemma start_logs: "detection_logs (store (snd (start store_ok clock now st))) = detection_logs (store st)"
  by (simp add: start_def db_call_def start_session_def Let_def)

lemma stop_logs: "detection_logs (store (snd (stop store_ok clock now st))) = detection_logs (store st)"
  by (auto simp: stop_def db_try_def Let_def split: sum.splits dest: end_session_logs)

lemma capture_step_store: "store (snd (snd (capture_step rd n st))) = store st"
  by (simp add: capture_step_def Let_def split: prod.splits option.splits)

lemma app_step_logs:
  "\<exists>new. detection_logs (store (app_step model ev st)) = detection_logs (store st) @ new \<and>
     (\<forall>l\<in>set new. alert_triggered l = (fire_count l > 0 \<or> smoke_count l > 0))"
proof (cases ev)
  case (Start_Request ok clock now)
  then show ?thesis by (simp add: start_logs)
next
  case (Stop_Request ok clock now)
  then show ?thesis by (simp add: stop_logs)
next
  case (Video_Frame ok clock now)
  from generate_step_store [of model ok clock now st] show ?thesis
  proof
    assume "store (snd (generate_step model ok clock now st)) = store st"
    then show ?thesis using Video_Frame by simp
  next
    assume "\<exists>sid f s. store (snd (generate_step model ok clock now st)) =
      add_detection_log clock sid f s (f > 0 \<or> s > 0) (store st)"
    then obtain sid f s where "store (snd (generate_step model ok clock now st)) =
      add_detection_log clock sid f s (f > 0 \<or> s > 0) (store st)" by blast
    then show ?thesis using Video_Frame by (simp add: add_detection_log_logs)
  qed
next
  case (Camera_Read rd)
  then show ?thesis by (simp add: capture_step_store)
qed

text \<open>The definitions a run of the application on concrete inputs unfolds.\<close>

lemmas ev_defs = generate_step_def publish_change_def get_timeout_def get_nowait_def db_call_def truthy_def
  add_detection_log_def next_rowid_def full_def put_def Let_def py_index_def classes_def colors_def
  draw_box_def initial_state_def zero_snapshot_def init_db_def start_def start_session_def
  capture_step_def enqueue_frame_def

text \<open>
  C10. Whatever the application does (start and stop requests, frames of the annotation
  loop, camera reads, with the store failing or not), the log table only grows, and every
  row added to it has alert_triggered true exactly when its fire_count or its smoke_count
  is positive.
\<close>

theorem alert_flag_invariant:
  "\<exists>new. detection_logs (store (run model evs st)) = detection_logs (store st) @ new \<and>
     (\<forall>l\<in>set new. alert_triggered l = (fire_count l > 0 \<or> smoke_count l > 0))"
proof (induction evs arbitrary: st)
  case Nil
  then show ?case by simp
next
  case (Cons ev evs)
  obtain new1 where new1: "detection_logs (store (app_step model ev st)) = detection_logs (store st) @ new1"
      "\<forall>l\<in>set new1. alert_triggered l = (fire_count l > 0 \<or> smoke_count l > 0)"
    using app_step_logs [of model ev st] by blast
  obtain new2 where new2: "detection_logs (store (run model evs (app_step model ev st))) =
      detection_logs (store (app_step model ev st)) @ new2"
      "\<forall>l\<in>set new2. alert_triggered l = (fire_count l > 0 \<or> smoke_count l > 0)"
    using Cons.IH [of "app_step model ev st"] by blast
  have "detection_logs (store (run model (ev # evs) st)) = detection_logs (store st) @ (new1 @ new2)"
    using new1(1) new2(1) by simp
  moreover have "\<forall>l\<in>set (new1 @ new2). alert_triggered l = (fire_count l > 0 \<or> smoke_count l > 0)"
    using new1(2) new2(2) by auto
  ultimately show ?case by blast
qed

theorem alert_flag_invariant_witness:
  "detection_logs (store
     (run (\<lambda>fr. Inr [\<lparr>box_cls = 3, box_x1 = 1, box_y1 = 2, box_x2 = 3, box_y2 = 4, box_conf = ''0.91''\<rparr>])
        [Start_Request True 5 5,
         Camera_Read (True, Some \<lparr>frame_size = 100, frame_data = 7, overlays = []\<rparr>),
         Video_Frame True 6 7,
         Camera_Read (True, Some \<lparr>frame_size = 100, frame_data = 8, overlays = []\<rparr>),
         Video_Frame True 8 9]
        (initial_state 0))) =
   [\<lparr>log_id = 1, session_id = 1, log_timestamp = 6, fire_count = 0, smoke_count = 1,
     alert_triggered = True\<rparr>]"
  using alert_flag_invariant [of
      "\<lambda>fr. Inr [\<lparr>box_cls = 3, box_x1 = 1, box_y1 = 2, box_x2 = 3, box_y2 = 4, box_conf = ''0.91''\<rparr>]"
      "[Start_Request True 5 5,
         Camera_Read (True, Some \<lparr>frame_size = 100, frame_data = 7, overlays = []\<rparr>),
         Video_Frame True 6 7,
         Camera_Read (True, Some \<lparr>frame_size = 100, frame_data = 8, overlays = []\<rparr>),
         Video_Frame True 8 9]"
      "initial_state 0"]
  by (simp add: ev_defs)

text \<open>
  C1, as amended. For a frame the annotation loop processes (dequeued, not empty, the
  detector and the drawing succeeded, giving the counts \<open>f\<close> and \<open>s\<close>): an event
  carrying the new snapshot is appended to the event queue if and only if \<open>f\<close> or
  \<open>s\<close> differs from the previous snapshot's counts, the event queue holds fewer than
  10 events, and the log append made for an active session did not fail; otherwise the
  event queue is left as it was.
\<close>

theorem event_published_iff:
  assumes "capturing st" and "frame_queue st = Some fr # rest" and "frame_size fr \<noteq> 0"
    and "model fr = Inr boxes" and "annotate boxes 0 0 fr = Inr (f, s, fr')"
  shows "detection_queue (snd (generate_step model store_ok clock now st)) =
     (if (f \<noteq> fire (current_detections st) \<or> s \<noteq> smoke (current_detections st)) \<and>
         length (detection_queue st) < 10 \<and> (truthy (current_session_id st) \<longrightarrow> store_ok)
      then detection_queue st @ [\<lparr>fire = f, smoke = s, timestamp = now\<rparr>]
      else detection_queue st)"
  by (simp add: generate_step_frame [where model = model, OF assms] publish_change_eq)

theorem event_published_iff_witness:
  "detection_queue
     (snd (generate_step
        (\<lambda>fr. Inr [\<lparr>box_cls = 0, box_x1 = 1, box_y1 = 2, box_x2 = 3, box_y2 = 4, box_conf = ''0.91''\<rparr>])
        True 6 7
        ((initial_state 0)\<lparr>capturing := True,
           frame_queue := [Some \<lparr>frame_size = 100, frame_data = 7, overlays = []\<rparr>]\<rparr>))) =
     [\<lparr>fire = 1, smoke = 0, timestamp = 7\<rparr>]"
  using event_published_iff [of
      "(initial_state 0)\<lparr>capturing := True,
           frame_queue := [Some \<lparr>frame_size = 100, frame_data = 7, overlays = []\<rparr>]\<rparr>"
      "\<lparr>frame_size = 100, frame_data = 7, overlays = []\<rparr>" "[]"
      "\<lambda>fr. Inr [\<lparr>box_cls = 0, box_x1 = 1, box_y1 = 2, box_x2 = 3, box_y2 = 4, box_conf = ''0.91''\<rparr>]"
      "[\<lparr>box_cls = 0, box_x1 = 1, box_y1 = 2, box_x2 = 3, box_y2 = 4, box_conf = ''0.91''\<rparr>]"
      1 0
      "\<lparr>frame_size = 100, frame_data = 7, overlays =
         [\<lparr>ov_x1 = 1, ov_y1 = 2, ov_x2 = 3, ov_y2 = 4, ov_label = ''fire 0.91'', ov_color = (0, 0, 255)\<rparr>]\<rparr>"
      True 6 7]
  by (simp add: ev_defs)

text \<open>
  C1 as stated fails when the event queue is full: the fire count changes from 0 to 1,
  the snapshot is replaced, and the queue of ten events is left as it was.
\<close>

theorem event_dropped_when_queue_full:
  "fire (current_detections
     ((initial_state 0)\<lparr>capturing := True,
        frame_queue := [Some \<lparr>frame_size = 100, frame_data = 7, overlays = []\<rparr>],
        detection_queue := replicate 10 (zero_snapshot 0)\<rparr>)) = 0 \<and>
   current_detections
     (snd (generate_step
        (\<lambda>fr. Inr [\<lparr>box_cls = 0, box_x1 = 1, box_y1 = 2, box_x2 = 3, box_y2 = 4, box_conf = ''0.91''\<rparr>])
        True 6 7
        ((initial_state 0)\<lparr>capturing := True,
           frame_queue := [Some \<lparr>frame_size = 100, frame_data = 7, overlays = []\<rparr>],
           detection_queue := replicate 10 (zero_snapshot 0)\<rparr>))) =
     \<lparr>fire = 1, smoke = 0, timestamp = 7\<rparr> \<and>
   detection_queue
     (snd (generate_step
        (\<lambda>fr. Inr [\<lparr>box_cls = 0, box_x1 = 1, box_y1 = 2, box_x2 = 3, box_y2 = 4, box_conf = ''0.91''\<rparr>])
        True 6 7
        ((initial_state 0)\<lparr>capturing := True,
           frame_queue := [Some \<lparr>frame_size = 100, frame_data = 7, overlays = []\<rparr>],
           detection_queue := replicate 10 (zero_snapshot 0)\<rparr>))) =
     replicate 10 (zero_snapshot 0)"
  by (simp add: ev_defs)

text \<open>
  C5. With an active session and a previous snapshot of zero counts, a frame for which
  the detector returns one box of class 0 and one box of class 1 (in either order), the
  store working, leaves the snapshot at fire 1, smoke 0 and appends exactly one log row,
  of that session, with counts 1 and 0 and alert_triggered true.
\<close>

theorem fire_and_light_example:
  assumes "capturing st" and "frame_queue st = Some fr # rest" and "frame_size fr \<noteq> 0"
    and "model fr = Inr boxes" and "boxes = [b0, b1] \<or> boxes = [b1, b0]"
    and "box_cls b0 = 0" and "box_cls b1 = 1"
    and "current_session_id st = Some sid" and "sid \<noteq> 0"
    and "fire (current_detections st) = 0" and "smoke (current_detections st) = 0"
  shows "current_detections (snd (generate_step model True clock now st)) =
           \<lparr>fire = 1, smoke = 0, timestamp = now\<rparr> \<and>
         (\<exists>l. detection_logs (store (snd (generate_step model True clock now st))) =
                 detection_logs (store st) @ [l] \<and>
               session_id l = sid \<and> fire_count l = 1 \<and> smoke_count l = 0 \<and> alert_triggered l)"
proof -
  have ann: "annotate boxes 0 0 fr =
      Inr (1, 0, draw_box b0 (''fire'' @ '' '' @ box_conf b0) (0, 0, 255) fr)"
    using assms(5-7) by (auto simp: py_index_classes)
  show ?thesis
    using assms(8-11)
    by (simp add: generate_step_frame [where model = model, OF assms(1-4) ann] publish_change_eq truthy_def
        add_detection_log_logs)
qed

theorem fire_and_light_example_witness:
  "current_detections
     (snd (generate_step
        (\<lambda>fr. Inr [\<lparr>box_cls = 0, box_x1 = 1, box_y1 = 2, box_x2 = 3, box_y2 = 4, box_conf = ''0.91''\<rparr>,
                    \<lparr>box_cls = 1, box_x1 = 5, box_y1 = 6, box_x2 = 7, box_y2 = 8, box_conf = ''0.80''\<rparr>])
        True 6 7
        ((snd (start True 5 5 (initial_state 0)))
           \<lparr>frame_queue := [Some \<lparr>frame_size = 100, frame_data = 7, overlays = []\<rparr>]\<rparr>))) =
     \<lparr>fire = 1, smoke = 0, timestamp = 7\<rparr> \<and>
   detection_logs (store
     (snd (generate_step
        (\<lambda>fr. Inr [\<lparr>box_cls = 0, box_x1 = 1, box_y1 = 2, box_x2 = 3, box_y2 = 4, box_conf = ''0.91''\<rparr>,
                    \<lparr>box_cls = 1, box_x1 = 5, box_y1 = 6, box_x2 = 7, box_y2 = 8, box_conf = ''0.80''\<rparr>])
        True 6 7
        ((snd (start True 5 5 (initial_state 0)))
           \<lparr>frame_queue := [Some \<lparr>frame_size = 100, frame_data = 7, overlays = []\<rparr>]\<rparr>)))) =
     [\<lparr>log_id = 1, session_id = 1, log_timestamp = 6, fire_count = 1, smoke_count = 0,
       alert_triggered = True\<rparr>]"
  using fire_and_light_example [of
      "(snd (start True 5 5 (initial_state 0)))
           \<lparr>frame_queue := [Some \<lparr>frame_size = 100, frame_data = 7, overlays = []\<rparr>]\<rparr>"
      "\<lparr>frame_size = 100, frame_data = 7, overlays = []\<rparr>" "[]"
      "\<lambda>fr. Inr [\<lparr>box_cls = 0, box_x1 = 1, box_y1 = 2, box_x2 = 3, box_y2 = 4, box_conf = ''0.91''\<rparr>,
                    \<lparr>box_cls = 1, box_x1 = 5, box_y1 = 6, box_x2 = 7, box_y2 = 8, box_conf = ''0.80''\<rparr>]"
      "[\<lparr>box_cls = 0, box_x1 = 1, box_y1 = 2, box_x2 = 3, box_y2 = 4, box_conf = ''0.91''\<rparr>,
                    \<lparr>box_cls = 1, box_x1 = 5, box_y1 = 6, box_x2 = 7, box_y2 = 8, box_conf = ''0.80''\<rparr>]"
      "\<lparr>box_cls = 0, box_x1 = 1, box_y1 = 2, box_x2 = 3, box_y2 = 4, box_conf = ''0.91''\<rparr>"
      "\<lparr>box_cls = 1, box_x1 = 5, box_y1 = 6, box_x2 = 7, box_y2 = 8, box_conf = ''0.80''\<rparr>"
      1 6 7]
  by (simp add: ev_defs)

text \<open>
  C3. Boxes of class 2 (no-fire) and class 1 (light) contribute nothing: the loop over
  the boxes gives the same counts and the same drawing with them removed. When every box
  has one of the four classes, the fire count grows by the number of class-0 boxes, the
  smoke count by the number of class-3 boxes, and one labelled overlay is drawn for each
  box of class 0 or 3 and for no other. A frame with boxes of classes 1 and 2 only is
  sent on with nothing drawn on it, and no log row written for it carries an alert or a
  positive count.
\<close>

theorem ignored_classes_never_count:
  "annotate (filter (\<lambda>b. box_cls b \<noteq> 2 \<and> box_cls b \<noteq> 1) boxes) f s fr = annotate boxes f s fr \<and>
   ((\<forall>b\<in>set boxes. box_cls b \<in> {0, 1, 2, 3}) \<longrightarrow>
      annotate boxes f s fr =
        Inr (f + int (length (filter (\<lambda>b. box_cls b = 0) boxes)),
             s + int (length (filter (\<lambda>b. box_cls b = 3) boxes)),
             fr\<lparr>overlays := overlays fr @
               map (\<lambda>b. \<lparr>ov_x1 = box_x1 b, ov_y1 = box_y1 b, ov_x2 = box_x2 b, ov_y2 = box_y2 b,
                           ov_label = classes ! nat (box_cls b) @ '' '' @ box_conf b,
                           ov_color = colors ! nat (box_cls b)\<rparr>)
                 (filter (\<lambda>b. box_cls b = 0 \<or> box_cls b = 3) boxes)\<rparr>)) \<and>
   ((\<forall>b\<in>set boxes. box_cls b = 1 \<or> box_cls b = 2) \<and> capturing st \<and>
    frame_queue st = Some fr # rest \<and> frame_size fr \<noteq> 0 \<and> model fr = Inr boxes \<longrightarrow>
      (fst (generate_step model store_ok clock now st) = Yielded fr \<or>
       fst (generate_step model store_ok clock now st) = Caught DbError) \<and>
      (\<forall>l\<in>set (drop (length (detection_logs (store st)))
                  (detection_logs (store (snd (generate_step model store_ok clock now st))))).
         fire_count l = 0 \<and> smoke_count l = 0 \<and> \<not> alert_triggered l))"
proof (intro conjI impI)
  show "annotate (filter (\<lambda>b. box_cls b \<noteq> 2 \<and> box_cls b \<noteq> 1) boxes) f s fr = annotate boxes f s fr"
    by (rule annotate_filter)
next
  assume range: "\<forall>b\<in>set boxes. box_cls b \<in> {0, 1, 2, 3}"
  have same: "filter (\<lambda>b. box_cls b \<noteq> 2 \<and> box_cls b \<noteq> 1) boxes =
      filter (\<lambda>b. box_cls b = 0 \<or> box_cls b = 3) boxes"
    using range by (intro filter_cong) auto
  show "annotate boxes f s fr =
        Inr (f + int (length (filter (\<lambda>b. box_cls b = 0) boxes)),
             s + int (length (filter (\<lambda>b. box_cls b = 3) boxes)),
             fr\<lparr>overlays := overlays fr @
               map (\<lambda>b. \<lparr>ov_x1 = box_x1 b, ov_y1 = box_y1 b, ov_x2 = box_x2 b, ov_y2 = box_y2 b,
                           ov_label = classes ! nat (box_cls b) @ '' '' @ box_conf b,
                           ov_color = colors ! nat (box_cls b)\<rparr>)
                 (filter (\<lambda>b. box_cls b = 0 \<or> box_cls b = 3) boxes)\<rparr>)"
    unfolding annotate_in_range [OF range] foldl_draw_box same by simp
next
  assume a: "(\<forall>b\<in>set boxes. box_cls b = 1 \<or> box_cls b = 2) \<and> capturing st \<and>
    frame_queue st = Some fr # rest \<and> frame_size fr \<noteq> 0 \<and> model fr = Inr boxes"
  then have ann: "annotate boxes 0 0 fr = Inr (0, 0, fr)"
    by (simp add: annotate_ignored)
  have step: "generate_step model store_ok clock now st =
     (case publish_change store_ok clock now 0 0 (st\<lparr>frame_queue := rest\<rparr>) of
        (Some e, st2) \<Rightarrow> (Caught e, st2)
      | (None, st2) \<Rightarrow> (Yielded fr, st2))"
    using a ann by (intro generate_step_frame [where model = model and boxes = boxes]) simp_all
  show "fst (generate_step model store_ok clock now st) = Yielded fr \<or>
       fst (generate_step model store_ok clock now st) = Caught DbError"
    by (simp add: step publish_change_eq)
  show "\<forall>l\<in>set (drop (length (detection_logs (store st)))
                  (detection_logs (store (snd (generate_step model store_ok clock now st))))).
         fire_count l = 0 \<and> smoke_count l = 0 \<and> \<not> alert_triggered l"
    by (simp add: step publish_change_eq add_detection_log_logs)
qed

theorem ignored_classes_never_count_witness:
  "annotate
     [\<lparr>box_cls = 0, box_x1 = 1, box_y1 = 2, box_x2 = 3, box_y2 = 4, box_conf = ''0.91''\<rparr>,
      \<lparr>box_cls = 1, box_x1 = 5, box_y1 = 6, box_x2 = 7, box_y2 = 8, box_conf = ''0.80''\<rparr>,
      \<lparr>box_cls = 2, box_x1 = 9, box_y1 = 10, box_x2 = 11, box_y2 = 12, box_conf = ''0.70''\<rparr>,
      \<lparr>box_cls = 3, box_x1 = 13, box_y1 = 14, box_x2 = 15, box_y2 = 16, box_conf = ''0.55''\<rparr>]
     0 0 \<lparr>frame_size = 100, frame_data = 7, overlays = []\<rparr> =
   Inr (1, 1,
     \<lparr>frame_size = 100, frame_data = 7, overlays =
        [\<lparr>ov_x1 = 1, ov_y1 = 2, ov_x2 = 3, ov_y2 = 4, ov_label = ''fire 0.91'', ov_color = (0, 0, 255)\<rparr>,
         \<lparr>ov_x1 = 13, ov_y1 = 14, ov_x2 = 15, ov_y2 = 16, ov_label = ''smoke 0.55'',
           ov_color = (128, 128, 128)\<rparr>]\<rparr>) \<and>
   generate_step
     (\<lambda>fr. Inr [\<lparr>box_cls = 1, box_x1 = 5, box_y1 = 6, box_x2 = 7, box_y2 = 8, box_conf = ''0.80''\<rparr>])
     True 6 7
     ((snd (start True 5 5 (initial_state 0)))
        \<lparr>frame_queue := [Some \<lparr>frame_size = 100, frame_data = 7, overlays = []\<rparr>]\<rparr>) =
     (Yielded \<lparr>frame_size = 100, frame_data = 7, overlays = []\<rparr>,
      (snd (start True 5 5 (initial_state 0)))\<lparr>frame_queue := []\<rparr>)"
  using ignored_classes_never_count [where
      boxes = "[\<lparr>box_cls = 1, box_x1 = 5, box_y1 = 6, box_x2 = 7, box_y2 = 8, box_conf = ''0.80''\<rparr>]"
      and model = "\<lambda>fr. Inr [\<lparr>box_cls = 1, box_x1 = 5, box_y1 = 6, box_x2 = 7, box_y2 = 8, box_conf = ''0.80''\<rparr>]"
      and fr = "\<lparr>frame_size = 100, frame_data = 7, overlays = []\<rparr>" and rest = "[]"
      and st = "(snd (start True 5 5 (initial_state 0)))
        \<lparr>frame_queue := [Some \<lparr>frame_size = 100, frame_data = 7, overlays = []\<rparr>]\<rparr>"
      and store_ok = True and clock = 6 and now = 7]
    ignored_classes_never_count [of
     "[\<lparr>box_cls = 0, box_x1 = 1, box_y1 = 2, box_x2 = 3, box_y2 = 4, box_conf = ''0.91''\<rparr>,
      \<lparr>box_cls = 1, box_x1 = 5, box_y1 = 6, box_x2 = 7, box_y2 = 8, box_conf = ''0.80''\<rparr>,
      \<lparr>box_cls = 2, box_x1 = 9, box_y1 = 10, box_x2 = 11, box_y2 = 12, box_conf = ''0.70''\<rparr>,
      \<lparr>box_cls = 3, box_x1 = 13, box_y1 = 14, box_x2 = 15, box_y2 = 16, box_conf = ''0.55''\<rparr>]"
     0 0 "\<lparr>frame_size = 100, frame_data = 7, overlays = []\<rparr>"]
  by (simp add: ev_defs)

section \<open>Requests and failures of the store\<close>


lemma drain_empty: "drain q = []"
  by (induction q) simp_all

text \<open>
  C9, as amended. A call of /start whose session insert succeeds answers ok, leaves the
  shared snapshot at fire 0, smoke 0 with the timestamp of the call and the event queue
  empty, so that /detection_status right after it returns zero counts; a call of /stop
  that has no session to close, or whose session close succeeds, answers OK and leaves
  the snapshot at zero counts. When the store call of /start or /stop raises, the
  request ends before the reset, and the snapshot and the event queue are as they were.
\<close>

theorem start_stop_reset_snapshot:
  "fst (start store_ok clock now st) =
     (if store_ok then Inr (''ok'', fst (start_session clock (store st))) else Inl DbError) \<and>
   detection_status (snd (start store_ok clock now st)) =
     (if store_ok then \<lparr>fire = 0, smoke = 0, timestamp = now\<rparr> else current_detections st) \<and>
   detection_queue (snd (start store_ok clock now st)) =
     (if store_ok then [] else detection_queue st) \<and>
   (fst (stop store_ok clock now st) = Inr ''OK'') =
     (\<not> truthy (current_session_id st) \<or>
      store_ok \<and> (\<exists>db. end_session clock (the (current_session_id st)) (store st) = Inr db)) \<and>
   detection_status (snd (stop store_ok clock now st)) =
     (if fst (stop store_ok clock now st) = Inr ''OK''
      then \<lparr>fire = 0, smoke = 0, timestamp = now\<rparr> else current_detections st) \<and>
   detection_queue (snd (stop store_ok clock now st)) = detection_queue st"
proof (intro conjI)
  show "fst (start store_ok clock now st) =
     (if store_ok then Inr (''ok'', fst (start_session clock (store st))) else Inl DbError)"
    by (simp add: start_def db_call_def Let_def split: prod.splits)
  show "detection_status (snd (start store_ok clock now st)) =
     (if store_ok then \<lparr>fire = 0, smoke = 0, timestamp = now\<rparr> else current_detections st)"
    by (simp add: start_def db_call_def detection_status_def zero_snapshot_def Let_def
        split: prod.splits)
  show "detection_queue (snd (start store_ok clock now st)) =
     (if store_ok then [] else detection_queue st)"
    by (simp add: start_def db_call_def drain_empty Let_def split: prod.splits)
  show "(fst (stop store_ok clock now st) = Inr ''OK'') =
     (\<not> truthy (current_session_id st) \<or>
      store_ok \<and> (\<exists>db. end_session clock (the (current_session_id st)) (store st) = Inr db))"
    by (auto simp: stop_def db_try_def Let_def split: sum.splits)
  show "detection_status (snd (stop store_ok clock now st)) =
     (if fst (stop store_ok clock now st) = Inr ''OK''
      then \<lparr>fire = 0, smoke = 0, timestamp = now\<rparr> else current_detections st)"
    by (auto simp: stop_def db_try_def detection_status_def zero_snapshot_def Let_def
        split: sum.splits)
  show "detection_queue (snd (stop store_ok clock now st)) = detection_queue st"
    by (auto simp: stop_def db_try_def Let_def split: sum.splits)
qed

text \<open>
  C9 as stated fails when the session insert of /start raises: after a frame with one
  fire box, a /start with a failing store leaves the snapshot at fire 1 and the event in
  the queue.
\<close>

theorem failed_start_keeps_snapshot:
  "detection_status
     (snd (start False 8 9
        (run (\<lambda>fr. Inr [\<lparr>box_cls = 0, box_x1 = 1, box_y1 = 2, box_x2 = 3, box_y2 = 4, box_conf = ''0.91''\<rparr>])
           [Start_Request True 5 5,
            Camera_Read (True, Some \<lparr>frame_size = 100, frame_data = 7, overlays = []\<rparr>),
            Video_Frame True 6 7]
           (initial_state 0)))) =
     \<lparr>fire = 1, smoke = 0, timestamp = 7\<rparr> \<and>
   detection_queue
     (snd (start False 8 9
        (run (\<lambda>fr. Inr [\<lparr>box_cls = 0, box_x1 = 1, box_y1 = 2, box_x2 = 3, box_y2 = 4, box_conf = ''0.91''\<rparr>])
           [Start_Request True 5 5,
            Camera_Read (True, Some \<lparr>frame_size = 100, frame_data = 7, overlays = []\<rparr>),
            Video_Frame True 6 7]
           (initial_state 0)))) =
     [\<lparr>fire = 1, smoke = 0, timestamp = 7\<rparr>]"
  by (simp add: ev_defs detection_status_def)

lemma start_store:
  "store (snd (start store_ok clock now st)) =
     (if store_ok then snd (start_session clock (store st)) else store st)"
  by (simp add: start_def db_call_def Let_def split: prod.splits)

lemma generate_step_sessions:
  "detection_sessions (store (snd (generate_step model store_ok clock now st))) =
     detection_sessions (store st)"
  using generate_step_store [of model store_ok clock now st]
  by (auto simp: add_detection_log_def Let_def)

lemma app_step_keeps_row:
  assumes "filter (\<lambda>s. row_id s = k) (detection_sessions (store st)) = [row]"
    and "\<forall>ok c n. ev \<noteq> Stop_Request ok c n"
  shows "filter (\<lambda>s. row_id s = k) (detection_sessions (store (app_step model ev st))) = [row]"
proof (cases ev)
  case (Start_Request ok clock now)
  have "row \<in> set (filter (\<lambda>s. row_id s = k) (detection_sessions (store st)))"
    using assms(1) by simp
  then have "row \<in> set (detection_sessions (store st))" and "row_id row = k"
    by simp_all
  then have "k \<noteq> fst (start_session clock (store st))"
    using start_session_fresh [of row "store st" clock] by simp
  then show ?thesis
    using assms(1) Start_Request
    by (simp add: start_store start_session_sessions)
next
  case (Stop_Request ok clock now)
  then show ?thesis using assms(2) by simp
next
  case (Video_Frame ok clock now)
  then show ?thesis using assms(1) by (simp add: generate_step_sessions)
next
  case (Camera_Read rd)
  then show ?thesis using assms(1) by (simp add: capture_step_store)
qed

lemma run_keeps_row:
  assumes "filter (\<lambda>s. row_id s = k) (detection_sessions (store st)) = [row]"
    and "\<forall>ok c n. Stop_Request ok c n \<notin> set evs"
  shows "filter (\<lambda>s. row_id s = k) (detection_sessions (store (run model evs st))) = [row]"
  using assms
proof (induction evs arbitrary: st)
  case Nil
  then show ?case by simp
next
  case (Cons ev evs)
  have "filter (\<lambda>s. row_id s = k) (detection_sessions (store (app_step model ev st))) = [row]"
    using Cons.prems by (intro app_step_keeps_row) auto
  then show ?case
    using Cons.prems(2) Cons.IH [of "app_step model ev st"] by simp
qed

text \<open>
  C8. /start (the store working) answers ok with a session id that no row had before,
  makes it the current session, and its row is active with no end time. After any
  requests, frames and camera reads that follow without a /stop among them, and a second
  /start, that row is still the same (status active, no end time), while the current
  session is another one.
\<close>

theorem start_twice_keeps_first_session:
  assumes "\<forall>ok c n. Stop_Request ok c n \<notin> set evs"
    and "sid = fst (start_session clock (store st))"
    and "st1 = snd (start True clock now st)"
    and "st2 = run model (evs @ [Start_Request True clock' now']) st1"
  shows "fst (start True clock now st) = Inr (''ok'', sid) \<and>
         sid \<notin> row_id ` set (detection_sessions (store st)) \<and>
         current_session_id st1 = Some sid \<and>
         filter (\<lambda>s. row_id s = sid) (detection_sessions (store st1)) =
           [\<lparr>row_id = sid, start_time = clock, end_time = None,
             total_fire_detections = 0, total_smoke_detections = 0, status = ''active''\<rparr>] \<and>
         filter (\<lambda>s. row_id s = sid) (detection_sessions (store st2)) =
           [\<lparr>row_id = sid, start_time = clock, end_time = None,
             total_fire_detections = 0, total_smoke_detections = 0, status = ''active''\<rparr>] \<and>
         (\<exists>sid'. current_session_id st2 = Some sid' \<and> sid' \<noteq> sid)"
proof -
  let ?row = "\<lparr>row_id = sid, start_time = clock, end_time = None,
             total_fire_detections = 0, total_smoke_detections = 0, status = ''active''\<rparr>"
  have r1: "fst (start True clock now st) = Inr (''ok'', sid)"
    using assms(2) by (simp add: start_def db_call_def Let_def split: prod.splits)
  have fresh: "sid \<notin> row_id ` set (detection_sessions (store st))"
  proof
    assume "sid \<in> row_id ` set (detection_sessions (store st))"
    then obtain x where "x \<in> set (detection_sessions (store st))" and "sid = row_id x"
      by blast
    then show False
      using start_session_fresh [of x "store st" clock] assms(2) by simp
  qed
  have cur: "current_session_id st1 = Some sid"
    using assms(2,3) by (simp add: start_def db_call_def Let_def split: prod.splits)
  have row1: "filter (\<lambda>s. row_id s = sid) (detection_sessions (store st1)) = [?row]"
    using start_session_row [of clock "store st" sid "snd (start_session clock (store st))"] assms(2,3)
    by (simp add: start_store)
  have stops: "\<forall>ok c n. Stop_Request ok c n \<notin> set (evs @ [Start_Request True clock' now'])"
    using assms(1) by simp
  have row2: "filter (\<lambda>s. row_id s = sid) (detection_sessions (store st2)) = [?row]"
    unfolding assms(4) using row1 stops by (rule run_keeps_row)
  let ?mid = "run model evs st1"
  have rowm: "filter (\<lambda>s. row_id s = sid) (detection_sessions (store ?mid)) = [?row]"
    using row1 assms(1) by (rule run_keeps_row)
  then have "?row \<in> set (filter (\<lambda>s. row_id s = sid) (detection_sessions (store ?mid)))"
    by simp
  then have "?row \<in> set (detection_sessions (store ?mid))" by simp
  then have ne: "fst (start_session clock' (store ?mid)) \<noteq> sid"
    using start_session_fresh [of ?row "store ?mid" clock'] by simp
  have run_app: "run model (xs @ [e]) s = app_step model e (run model xs s)" for xs e s
    by (induction xs arbitrary: s) simp_all
  have "current_session_id st2 = Some (fst (start_session clock' (store ?mid)))"
    unfolding assms(4) run_app
    by (simp add: start_def db_call_def Let_def split: prod.splits)
  with ne have "\<exists>sid'. current_session_id st2 = Some sid' \<and> sid' \<noteq> sid" by simp
  with r1 fresh cur row1 row2 show ?thesis by simp
qed

lemmas route_defs = start_def stop_def db_call_def db_try_def start_session_def end_session_def
  truthy_def next_rowid_def sql_sum_def or_zero_def int64_ok_def detection_status_def zero_snapshot_def initial_state_def
  init_db_def Let_def

theorem start_twice_keeps_first_session_witness:
  "fst (start True 5 6 (initial_state 0)) = Inr (''ok'', 1) \<and>
   detection_sessions (store
     (run (\<lambda>fr. Inr [])
        ([Camera_Read (True, Some \<lparr>frame_size = 100, frame_data = 7, overlays = []\<rparr>),
          Video_Frame True 7 8] @ [Start_Request True 9 10])
        (snd (start True 5 6 (initial_state 0))))) =
     [\<lparr>row_id = 1, start_time = 5, end_time = None, total_fire_detections = 0,
       total_smoke_detections = 0, status = ''active''\<rparr>,
      \<lparr>row_id = 2, start_time = 9, end_time = None, total_fire_detections = 0,
       total_smoke_detections = 0, status = ''active''\<rparr>]"
  using start_twice_keeps_first_session [of
      "[Camera_Read (True, Some \<lparr>frame_size = 100, frame_data = 7, overlays = []\<rparr>),
        Video_Frame True 7 8]"
      1 5 "initial_state 0" "snd (start True 5 6 (initial_state 0))" 6
      "run (\<lambda>fr. Inr [])
        ([Camera_Read (True, Some \<lparr>frame_size = 100, frame_data = 7, overlays = []\<rparr>),
          Video_Frame True 7 8] @ [Start_Request True 9 10])
        (snd (start True 5 6 (initial_state 0)))"
      "\<lambda>fr. Inr []" 9 10]
  by (simp add: ev_defs route_defs)

theorem start_stop_reset_snapshot_witness:
  "detection_status
     (snd (start True 5 6
        ((initial_state 0)\<lparr>current_detections := \<lparr>fire = 2, smoke = 1, timestamp = 3\<rparr>,
           detection_queue := [\<lparr>fire = 2, smoke = 1, timestamp = 3\<rparr>]\<rparr>))) =
     \<lparr>fire = 0, smoke = 0, timestamp = 6\<rparr> \<and>
   detection_queue
     (snd (start True 5 6
        ((initial_state 0)\<lparr>current_detections := \<lparr>fire = 2, smoke = 1, timestamp = 3\<rparr>,
           detection_queue := [\<lparr>fire = 2, smoke = 1, timestamp = 3\<rparr>]\<rparr>))) = [] \<and>
   detection_status
     (snd (stop True 7 8
        ((snd (start True 5 6 (initial_state 0)))
           \<lparr>current_detections := \<lparr>fire = 2, smoke = 1, timestamp = 3\<rparr>\<rparr>))) =
     \<lparr>fire = 0, smoke = 0, timestamp = 8\<rparr> \<and>
   detection_status
     (snd (stop False 7 8
        ((snd (start True 5 6 (initial_state 0)))
           \<lparr>current_detections := \<lparr>fire = 2, smoke = 1, timestamp = 3\<rparr>\<rparr>))) =
     \<lparr>fire = 2, smoke = 1, timestamp = 3\<rparr>"
  using start_stop_reset_snapshot [where store_ok = True and clock = 5 and now = 6 and
      st = "(initial_state 0)\<lparr>current_detections := \<lparr>fire = 2, smoke = 1, timestamp = 3\<rparr>,
           detection_queue := [\<lparr>fire = 2, smoke = 1, timestamp = 3\<rparr>]\<rparr>"]
    start_stop_reset_snapshot [where store_ok = True and clock = 7 and now = 8 and
      st = "(snd (start True 5 6 (initial_state 0)))
           \<lparr>current_detections := \<lparr>fire = 2, smoke = 1, timestamp = 3\<rparr>\<rparr>"]
    start_stop_reset_snapshot [where store_ok = False and clock = 7 and now = 8 and
      st = "(snd (start True 5 6 (initial_state 0)))
           \<lparr>current_detections := \<lparr>fire = 2, smoke = 1, timestamp = 3\<rparr>\<rparr>"]
  by (simp add: route_defs)

text \<open>
  C7, as amended. A failure of the store in /start, in /stop (with a session to close) or
  in a report query ends the request with the exception: the call is not tried again,
  the store is as before, and what the request had already changed (the capturing flag)
  stays changed. In the annotation loop a failure of the log append is caught by the
  loop's general handler: the pass ends without the frame being sent and without an
  event, the snapshot stays replaced, and the loop goes on with the next pass.
\<close>

theorem store_failures:
  "start False clock now st = (Inl DbError, st\<lparr>capturing := True\<rparr>) \<and>
   (truthy (current_session_id st) \<longrightarrow>
      stop False clock now st = (Inl DbError, st\<lparr>capturing := False\<rparr>)) \<and>
   get_session_details False sid st = Inl DbError \<and>
   (capturing st \<and> frame_queue st = Some fr # rest \<and> frame_size fr \<noteq> 0 \<and>
    model fr = Inr boxes \<and> annotate boxes 0 0 fr = Inr (f, s, fr') \<and>
    (f \<noteq> fire (current_detections st) \<or> s \<noteq> smoke (current_detections st)) \<and>
    truthy (current_session_id st) \<longrightarrow>
      generate_loop model ((False, clock, now) # envs) st =
        (Caught DbError #
           fst (generate_loop model envs
                  (st\<lparr>frame_queue := rest,
                      current_detections := \<lparr>fire = f, smoke = s, timestamp = now\<rparr>\<rparr>)),
         snd (generate_loop model envs
                (st\<lparr>frame_queue := rest,
                    current_detections := \<lparr>fire = f, smoke = s, timestamp = now\<rparr>\<rparr>))))"
proof (intro conjI impI)
  show "start False clock now st = (Inl DbError, st\<lparr>capturing := True\<rparr>)"
    by (simp add: start_def db_call_def)
  show "stop False clock now st = (Inl DbError, st\<lparr>capturing := False\<rparr>)"
    if "truthy (current_session_id st)"
    using that by (simp add: stop_def db_try_def)
  show "get_session_details False sid st = Inl DbError"
    by (simp add: get_session_details_def db_call_def)
next
  assume a: "capturing st \<and> frame_queue st = Some fr # rest \<and> frame_size fr \<noteq> 0 \<and>
    model fr = Inr boxes \<and> annotate boxes 0 0 fr = Inr (f, s, fr') \<and>
    (f \<noteq> fire (current_detections st) \<or> s \<noteq> smoke (current_detections st)) \<and>
    truthy (current_session_id st)"
  have step: "generate_step model False clock now st =
     (case publish_change False clock now f s (st\<lparr>frame_queue := rest\<rparr>) of
        (Some e, st2) \<Rightarrow> (Caught e, st2)
      | (None, st2) \<Rightarrow> (Yielded fr', st2))"
    using a by (intro generate_step_frame [where model = model and boxes = boxes]) blast+
  have "generate_step model False clock now st =
      (Caught DbError,
       st\<lparr>frame_queue := rest, current_detections := \<lparr>fire = f, smoke = s, timestamp = now\<rparr>\<rparr>)"
    using a by (simp add: step publish_change_eq)
  then show "generate_loop model ((False, clock, now) # envs) st =
        (Caught DbError #
           fst (generate_loop model envs
                  (st\<lparr>frame_queue := rest,
                      current_detections := \<lparr>fire = f, smoke = s, timestamp = now\<rparr>\<rparr>)),
         snd (generate_loop model envs
                (st\<lparr>frame_queue := rest,
                    current_detections := \<lparr>fire = f, smoke = s, timestamp = now\<rparr>\<rparr>)))"
    by (simp split: prod.splits)
qed

text \<open>
  C7 as stated fails for the annotation loop: with the log append failing on the first
  frame, the loop catches the error and sends the second frame.
\<close>

theorem log_failure_caught_and_loop_continues:
  "generate_loop
     (\<lambda>fr. Inr [\<lparr>box_cls = 0, box_x1 = 1, box_y1 = 2, box_x2 = 3, box_y2 = 4, box_conf = ''0.91''\<rparr>])
     [(False, 6, 7), (True, 8, 9)]
     ((snd (start True 5 5 (initial_state 0)))
        \<lparr>frame_queue := [Some \<lparr>frame_size = 100, frame_data = 7, overlays = []\<rparr>,
                         Some \<lparr>frame_size = 100, frame_data = 8, overlays = []\<rparr>]\<rparr>) =
   ([Caught DbError,
     Yielded \<lparr>frame_size = 100, frame_data = 8, overlays =
       [\<lparr>ov_x1 = 1, ov_y1 = 2, ov_x2 = 3, ov_y2 = 4, ov_label = ''fire 0.91'', ov_color = (0, 0, 255)\<rparr>]\<rparr>],
    (snd (start True 5 5 (initial_state 0)))
       \<lparr>frame_queue := [], current_detections := \<lparr>fire = 1, smoke = 0, timestamp = 7\<rparr>\<rparr>)"
  by (simp add: ev_defs)

theorem store_failures_witness:
  "start False 5 6 (initial_state 0) = (Inl DbError, (initial_state 0)\<lparr>capturing := True\<rparr>) \<and>
   stop False 7 8 (snd (start True 5 6 (initial_state 0))) =
     (Inl DbError, (snd (start True 5 6 (initial_state 0)))\<lparr>capturing := False\<rparr>) \<and>
   fst (generate_loop
     (\<lambda>fr. Inr [\<lparr>box_cls = 0, box_x1 = 1, box_y1 = 2, box_x2 = 3, box_y2 = 4, box_conf = ''0.91''\<rparr>])
     [(False, 6, 7)]
     ((snd (start True 5 5 (initial_state 0)))
        \<lparr>frame_queue := [Some \<lparr>frame_size = 100, frame_data = 7, overlays = []\<rparr>]\<rparr>)) =
     [Caught DbError]"
  using store_failures [where clock = 5 and now = 6 and st = "initial_state 0"]
    store_failures [where clock = 7 and now = 8 and st = "snd (start True 5 6 (initial_state 0))"]
    store_failures [where clock = 6 and now = 7 and envs = "[]" and rest = "[]" and f = 1 and s = 0
      and st = "(snd (start True 5 5 (initial_state 0)))
        \<lparr>frame_queue := [Some \<lparr>frame_size = 100, frame_data = 7, overlays = []\<rparr>]\<rparr>"
      and fr = "\<lparr>frame_size = 100, frame_data = 7, overlays = []\<rparr>"
      and model = "\<lambda>fr. Inr [\<lparr>box_cls = 0, box_x1 = 1, box_y1 = 2, box_x2 = 3, box_y2 = 4, box_conf = ''0.91''\<rparr>]"
      and boxes = "[\<lparr>box_cls = 0, box_x1 = 1, box_y1 = 2, box_x2 = 3, box_y2 = 4, box_conf = ''0.91''\<rparr>]"]
  by (simp add: ev_defs)

section \<open>The capture loop\<close>


lemma capture_step_failure:
  "capture_step (False, fr) n st = (if n + 1 > 10 then Reconnect else Continue 100, n + 1, st)"
  by (simp add: capture_step_def Let_def)

lemma capture_step_success:
  "length (frame_queue st) \<le> 2 \<Longrightarrow>
   capture_step (True, fr) n st =
     (Continue 30, 0,
      st\<lparr>frame_queue := drop (length (frame_queue st @ [fr]) - 2) (frame_queue st @ [fr])\<rparr>)"
  by (simp add: capture_step_def enqueue_frame_eq)

lemma failure_run_Cons:
  "(\<exists>pre mid post. rd # rds = pre @ mid @ post \<and> length mid = 11 \<and> (\<forall>x\<in>set mid. \<not> fst x)) \<longleftrightarrow>
   (11 \<le> length (rd # rds) \<and> (\<forall>x\<in>set (take 11 (rd # rds)). \<not> fst x)) \<or>
   (\<exists>pre mid post. rds = pre @ mid @ post \<and> length mid = 11 \<and> (\<forall>x\<in>set mid. \<not> fst x))"
  (is "?L \<longleftrightarrow> ?A \<or> ?R")
proof
  assume ?L
  then obtain pre mid post where d: "rd # rds = pre @ mid @ post" "length mid = 11"
      "\<forall>x\<in>set mid. \<not> fst x" by blast
  show "?A \<or> ?R"
  proof (cases pre)
    case Nil
    then have "take 11 (rd # rds) = mid" "11 \<le> length (rd # rds)"
      using d(1,2) by simp_all
    then show ?thesis using d(3) by blast
  next
    case (Cons p pre')
    then have "rds = pre' @ mid @ post" using d(1) by simp
    then show ?thesis using d(2,3) by blast
  qed
next
  assume "?A \<or> ?R"
  then show ?L
  proof
    assume a: ?A
    have "rd # rds = [] @ take 11 (rd # rds) @ drop 11 (rd # rds)" by simp
    moreover have "length (take 11 (rd # rds)) = 11" using a by simp
    ultimately show ?L using a by blast
  next
    assume ?R
    then obtain pre mid post where "rds = pre @ mid @ post" "length mid = 11"
      "\<forall>x\<in>set mid. \<not> fst x" by blast
    then have "rd # rds = (rd # pre) @ mid @ post \<and> length mid = 11 \<and> (\<forall>x\<in>set mid. \<not> fst x)"
      by simp
    then show ?L by blast
  qed
qed

lemma capture_loop_released:
  assumes "\<not> stop_event st" and "capturing st" and "length (frame_queue st) \<le> 2"
    and "0 \<le> n" and "n \<le> 10"
  shows "fst (capture_loop rds n st) = Released \<longleftrightarrow>
     (nat (11 - n) \<le> length rds \<and> (\<forall>x\<in>set (take (nat (11 - n)) rds). \<not> fst x)) \<or>
     (\<exists>pre mid post. rds = pre @ mid @ post \<and> length mid = 11 \<and> (\<forall>x\<in>set mid. \<not> fst x))"
  using assms
proof (induction rds arbitrary: n st)
  case Nil
  then show ?case by simp
next
  case (Cons rd rds)
  obtain ret fr where rd: "rd = (ret, fr)" by (cases rd)
  let ?R = "\<lambda>xs. \<exists>pre mid post. xs = pre @ mid @ post \<and> length mid = 11 \<and>
      (\<forall>x\<in>set mid. \<not> fst x)"
  show ?case
  proof (cases ret)
    case True
    let ?st' = "st\<lparr>frame_queue := drop (length (frame_queue st @ [fr]) - 2) (frame_queue st @ [fr])\<rparr>"
    have loop: "capture_loop (rd # rds) n st = capture_loop rds 0 ?st'"
      using Cons.prems True rd by (simp add: capture_step_success)
    have IH: "fst (capture_loop rds 0 ?st') = Released \<longleftrightarrow>
       (11 \<le> length rds \<and> (\<forall>x\<in>set (take 11 rds). \<not> fst x)) \<or> ?R rds"
      using Cons.IH [of ?st' 0] Cons.prems by simp
    have first: "?R rds" if "11 \<le> length rds" "\<forall>x\<in>set (take 11 rds). \<not> fst x"
    proof -
      have "rds = [] @ take 11 rds @ drop 11 rds" by simp
      moreover have "length (take 11 rds) = 11" using that by simp
      ultimately show ?thesis using that(2) by blast
    qed
    have "nat (11 - n) = Suc (nat (10 - n))" using Cons.prems by simp
    then have no_first: "\<not> (\<forall>x\<in>set (take (nat (11 - n)) (rd # rds)). \<not> fst x)"
      using True rd by simp
    have "?R (rd # rds) \<longleftrightarrow> ?R rds"
      using failure_run_Cons [of rd rds] True rd by simp
    then show ?thesis
      using loop IH first no_first by auto
  next
    case False
    show ?thesis
    proof (cases "n = 10")
      case True
      have "capture_loop (rd # rds) n st = (Released, 11, st)"
        using Cons.prems \<open>\<not> ret\<close> rd True by (simp add: capture_step_failure)
      moreover have "nat (11 - n) \<le> length (rd # rds) \<and>
          (\<forall>x\<in>set (take (nat (11 - n)) (rd # rds)). \<not> fst x)"
        using True \<open>\<not> ret\<close> rd by simp
      ultimately show ?thesis by simp
    next
      case ne: False
      have loop: "capture_loop (rd # rds) n st = capture_loop rds (n + 1) st"
        using Cons.prems \<open>\<not> ret\<close> rd ne by (simp add: capture_step_failure)
      have IH: "fst (capture_loop rds (n + 1) st) = Released \<longleftrightarrow>
         (nat (10 - n) \<le> length rds \<and> (\<forall>x\<in>set (take (nat (10 - n)) rds). \<not> fst x)) \<or> ?R rds"
        using Cons.IH [of st "n + 1"] Cons.prems ne by (simp add: algebra_simps)
      have suc: "nat (11 - n) = Suc (nat (10 - n))" using Cons.prems by simp
      have A: "(nat (11 - n) \<le> length (rd # rds) \<and>
            (\<forall>x\<in>set (take (nat (11 - n)) (rd # rds)). \<not> fst x)) \<longleftrightarrow>
          (nat (10 - n) \<le> length rds \<and> (\<forall>x\<in>set (take (nat (10 - n)) rds). \<not> fst x))"
        using \<open>\<not> ret\<close> rd by (simp add: suc)
      have B: "nat (10 - n) \<le> length rds \<and> (\<forall>x\<in>set (take (nat (10 - n)) rds). \<not> fst x)"
        if "11 \<le> length (rd # rds)" "\<forall>x\<in>set (take 11 (rd # rds)). \<not> fst x"
      proof -
        have k: "nat (10 - n) \<le> 10" using Cons.prems by simp
        have t: "take 11 (rd # rds) = rd # take 10 rds"
          by (simp add: numeral_eq_Suc)
        have "set (take (nat (10 - n)) rds) \<subseteq> set (take 10 rds)"
          using k by (rule set_take_subset_set_take)
        then show ?thesis using that k unfolding t by auto
      qed
      show ?thesis
        unfolding loop IH failure_run_Cons [of rd rds] A using B by blast
    qed
  qed
qed

text \<open>
  C6. In the capture loop, with capturing enabled and no stop requested: a failed read
  adds one to the counter of consecutive failures and, while the counter is at most 10,
  is retried after a pause of 100 ms; the loop is left to release and reopen the
  connection exactly when the counter exceeds 10; a successful read sets the counter
  to 0. Over the reads the camera delivers, the connection is released and reopened if
  and only if 11 reads in a row failed.
\<close>

theorem capture_failure_counter:
  assumes "\<not> stop_event st" and "capturing st" and "length (frame_queue st) \<le> 2"
  shows "capture_step (False, fr) n st =
           (if n + 1 > 10 then Reconnect else Continue 100, n + 1, st) \<and>
         (\<exists>q. capture_step (True, fr) n st = (Continue 30, 0, st\<lparr>frame_queue := q\<rparr>)) \<and>
         (fst (capture_loop rds 0 st) = Released \<longleftrightarrow>
            (\<exists>pre mid post. rds = pre @ mid @ post \<and> length mid = 11 \<and>
               (\<forall>rd\<in>set mid. \<not> fst rd)))"
proof (intro conjI)
  show "capture_step (False, fr) n st =
           (if n + 1 > 10 then Reconnect else Continue 100, n + 1, st)"
    by (rule capture_step_failure)
  show "\<exists>q. capture_step (True, fr) n st = (Continue 30, 0, st\<lparr>frame_queue := q\<rparr>)"
    using assms(3) by (auto simp: capture_step_success)
  have first: "\<exists>pre mid post. rds = pre @ mid @ post \<and> length mid = 11 \<and> (\<forall>rd\<in>set mid. \<not> fst rd)"
    if "11 \<le> length rds" "\<forall>x\<in>set (take 11 rds). \<not> fst x"
  proof -
    have "rds = [] @ take 11 rds @ drop 11 rds" by simp
    moreover have "length (take 11 rds) = 11" using that by simp
    ultimately show ?thesis using that(2) by blast
  qed
  show "fst (capture_loop rds 0 st) = Released \<longleftrightarrow>
            (\<exists>pre mid post. rds = pre @ mid @ post \<and> length mid = 11 \<and>
               (\<forall>rd\<in>set mid. \<not> fst rd))"
  proof -
    have "fst (capture_loop rds 0 st) = Released \<longleftrightarrow>
        (11 \<le> length rds \<and> (\<forall>x\<in>set (take 11 rds). \<not> fst x)) \<or>
        (\<exists>pre mid post. rds = pre @ mid @ post \<and> length mid = 11 \<and>
           (\<forall>rd\<in>set mid. \<not> fst rd))"
      using capture_loop_released [OF assms, of 0 rds] by simp
    then show ?thesis using first by blast
  qed
qed

theorem capture_failure_counter_witness:
  "fst (capture_loop (replicate 10 (False, None) @ [(True, Some \<lparr>frame_size = 100, frame_data = 7, overlays = []\<rparr>)] @
          replicate 11 (False, None))
        0 ((initial_state 0)\<lparr>capturing := True\<rparr>)) = Released \<and>
   fst (capture_loop (replicate 10 (False, None) @ [(True, Some \<lparr>frame_size = 100, frame_data = 7, overlays = []\<rparr>)] @
          replicate 10 (False, None))
        0 ((initial_state 0)\<lparr>capturing := True\<rparr>)) = Reads_Pending"
  using capture_failure_counter [of "(initial_state 0)\<lparr>capturing := True\<rparr>" None 0
      "replicate 10 (False, None) @ [(True, Some \<lparr>frame_size = 100, frame_data = 7, overlays = []\<rparr>)] @
          replicate 11 (False, None)"]
  by (simp add: numeral_eq_Suc capture_step_def enqueue_frame_def full_def put_def get_nowait_def
      initial_state_def Let_def)

end
